theory Spec2Isabelle
  imports Complex_Main
begin

section \<open>The posture corrector: a shallow embedding of \<open>src/main.cpp\<close>\<close>

text \<open>
  The program is one function, \<open>main\<close>: it opens the default camera, prints a banner and
  then loops. Each iteration reads a frame, runs a fixed filter chain from the OpenCV
  library over it, judges the first detected line segment by its angle, prints one line
  of feedback and sleeps for half a second.

  What belongs to the OpenCV and C++ libraries is not part of the repository. The camera
  and the three image routines are taken as parameters of the model; \<open>std::atan2\<close> and the
  constant \<open>CV_PI\<close> are given their mathematical meaning, and the machine arithmetic of
  line 35, the subtraction of 32-bit integers and the narrowing to a 32-bit float, is
  written out.
\<close>

subsection \<open>Data\<close>

text \<open>
  \<open>cv::Vec4i\<close> is a vector of four C++ \<open>int\<close>s, read in the source as \<open>l[0]\<close> .. \<open>l[3]\<close>
  with constant indices. A component is kept as an integer, and \<open>int32\<close> brings the
  result of an operation on 32-bit \<open>int\<close>s back into their range as the machine does, by
  wrapping around. (C++ leaves signed overflow undefined. It does not occur on the
  segments the program can receive: \<open>cv::HoughLinesP\<close> returns pixel positions of the
  frame, which are not negative, and the difference of two such values stays in range,
  see \<open>differences_in_int_range\<close> below.)
\<close>

record Vec4i =
  val0 :: int
  val1 :: int
  val2 :: int
  val3 :: int

definition int_range :: "int \<Rightarrow> bool" where
  "int_range v \<longleftrightarrow> - (2 ^ 31) \<le> v \<and> v < 2 ^ 31"

definition int32 :: "int \<Rightarrow> int" where
  "int32 v = (v + 2 ^ 31) mod 2 ^ 32 - 2 ^ 31"

definition pixel_positions :: "Vec4i \<Rightarrow> bool" where
  "pixel_positions l \<longleftrightarrow>
     0 \<le> val0 l \<and> int_range (val0 l) \<and> 0 \<le> val1 l \<and> int_range (val1 l) \<and>
     0 \<le> val2 l \<and> int_range (val2 l) \<and> 0 \<le> val3 l \<and> int_range (val3 l)"

text \<open>
  \<open>std::vector::operator[]\<close> does not check its index: a read beyond \<open>size()\<close> is
  undefined behaviour. The model makes that read a fault.
\<close>

datatype fault = OutOfRange

definition vector_at :: "'a list \<Rightarrow> nat \<Rightarrow> fault + 'a" where
  "vector_at xs i = (if i < length xs then Inr (xs ! i) else Inl OutOfRange)"

subsection \<open>Library arithmetic\<close>

text \<open>
  Modelled from the spec: \<open>std::atan2\<close> of the C++ standard library, on finite arguments.
  The program calls it on two \<open>int\<close>s, which the library promotes to \<open>double\<close>; an \<open>int\<close>
  zero becomes positive zero, for which the result at the origin is \<open>0\<close>. The result is
  the angle of the point \<open>(x, y)\<close> in the interval \<open>(-pi, pi]\<close>. Its value and the two
  \<open>double\<close> operations that follow it in line 35 are taken as exact: their rounding, of
  relative size \<open>10\<^sup>-\<^sup>1\<^sup>6\<close>, is not represented. The narrowing of the result to \<open>float\<close>,
  which is ten million times coarser, is: see \<open>to_float\<close> below.
\<close>

definition atan2 :: "real \<Rightarrow> real \<Rightarrow> real" where
  "atan2 y x =
     (if 0 < x then arctan (y / x)
      else if x < 0 then (if 0 \<le> y then arctan (y / x) + pi else arctan (y / x) - pi)
      else if 0 < y then pi / 2
      else if y < 0 then - (pi / 2)
      else 0)"

text \<open>
  Modelled from the spec: \<open>CV_PI\<close> is OpenCV's macro for the constant pi.
\<close>

definition CV_PI :: real where
  "CV_PI = pi"

text \<open>
  Line 35 stores the angle in a \<open>float\<close>. \<open>to_float\<close> is that conversion: the IEEE 754
  binary32 value (24 significant bits, least exponent \<open>-126\<close>) nearest to a real, and
  of two equally near ones the one whose last bit is even. \<open>float_spacing x\<close> is the
  distance between neighbouring such values around \<open>x\<close>. Reals beyond the largest
  \<open>float\<close>, which would become infinite, do not occur: the angle lies between \<open>-180\<close>
  and \<open>180\<close>.
\<close>

definition round_to_even :: "real \<Rightarrow> int" where
  "round_to_even y =
     (let f = \<lfloor>y\<rfloor>; r = y - real_of_int f
      in if r < 1 / 2 then f
         else if 1 / 2 < r then f + 1
         else if even f then f else f + 1)"

definition float_exponent :: "real \<Rightarrow> int" where
  "float_exponent x = max \<lfloor>log 2 \<bar>x\<bar>\<rfloor> (- 126)"

definition float_spacing :: "real \<Rightarrow> real" where
  "float_spacing x = 2 powr (real_of_int (float_exponent x) - 23)"

definition to_float :: "real \<Rightarrow> real" where
  "to_float x =
     (if x = 0 then 0
      else sgn x * real_of_int (round_to_even (\<bar>x\<bar> / float_spacing x)) * float_spacing x)"

subsection \<open>The classifier (lines 32 to 37)\<close>

text \<open>
  \<^verbatim>\<open>
  bool goodPosture = false;
  if (!lines.empty()) {
      float angle = std::atan2(lines[0][3] - lines[0][1], lines[0][2] - lines[0][0]) * 180 / CV_PI;
      goodPosture = (std::abs(angle) < 10);
  }
  \<close>
  \<open>float_angle\<close> is the value that line 35 stores in \<open>angle\<close>: the two differences are
  taken on 32-bit \<open>int\<close>s, the rest is computed in \<open>double\<close> and the result narrowed to
  \<open>float\<close>. Line 36 compares its absolute value, again a \<open>float\<close>, with \<open>10\<close>, which is
  one. \<open>goodPosture\<close> is the value of the flag after the block, or the fault of reading
  \<open>lines[0]\<close> out of range.
\<close>

definition float_angle :: "Vec4i \<Rightarrow> real" where
  "float_angle l =
     to_float
       (atan2 (real_of_int (int32 (val3 l - val1 l))) (real_of_int (int32 (val2 l - val0 l)))
          * 180 / CV_PI)"

definition goodPosture :: "Vec4i list \<Rightarrow> fault + bool" where
  "goodPosture lines =
     (if lines \<noteq> [] then
        (case vector_at lines 0 of
           Inl e \<Rightarrow> Inl e
         | Inr l \<Rightarrow> (let angle = float_angle l in Inr (\<bar>angle\<bar> < 10)))
      else Inr False)"

text \<open>Line 40: the text written for a value of the flag.\<close>

definition feedback :: "bool \<Rightarrow> string" where
  "feedback good = (if good then ''Good posture!'' else ''Straighten up!'')"

subsection \<open>The process\<close>

text \<open>
  The library as the program sees it: whether the camera opened, the frame delivered by
  the \<open>k\<close>-th read of \<open>cap >> frame\<close>, the test \<open>frame.empty()\<close>, and the three routines of
  the filter chain with the constant arguments the program passes. The routines are
  assumed to return normally. \<open>waitKey\<close> is the keyboard: the key code that the \<open>k\<close>-th
  poll would deliver. The program never polls it (lines 43 and 44 are comments); the
  field is there so that this can be stated.
\<close>

record 'mat opencv =
  isOpened :: bool
  read_frame :: "nat \<Rightarrow> 'mat"
  empty :: "'mat \<Rightarrow> bool"
  cvtColor :: "'mat \<Rightarrow> 'mat"
  Canny :: "'mat \<Rightarrow> 'mat"
  HoughLinesP :: "'mat \<Rightarrow> Vec4i list"
  waitKey :: "nat \<Rightarrow> int"

text \<open>
  What the process has done so far: the lines written to standard output and to the
  error stream (each \<open><< std::endl\<close> ends one), the milliseconds slept, and whether
  \<open>cap.release()\<close> has run.
\<close>

record process =
  cout :: "string list"
  cerr :: "string list"
  slept_ms :: nat
  released :: bool

definition start :: process where
  "start = \<lparr>cout = [], cerr = [], slept_ms = 0, released = False\<rparr>"

definition banner :: string where
  "banner = ''Posture Corrector running. Press 'q' to quit.''"

text \<open>The segments the filter chain finds in a frame (lines 24 to 29).\<close>

definition detect :: "'mat opencv \<Rightarrow> 'mat \<Rightarrow> Vec4i list" where
  "detect cv frame =
     (let gray = cvtColor cv frame;
          edges = Canny cv gray
      in HoughLinesP cv edges)"

text \<open>
  The loop \<open>while (true)\<close> may run forever, so it is run for at most \<open>n\<close> iterations,
  starting with the \<open>k\<close>-th read of the camera. It ends early by \<open>break\<close> or by a fault;
  otherwise the state after \<open>n\<close> iterations is returned with the loop still going.
  The two commented-out lines 43 and 44 are not code and have no counterpart.
\<close>

datatype flow = Break | Looping | Undefined fault

fun while_true :: "'mat opencv \<Rightarrow> nat \<Rightarrow> nat \<Rightarrow> process \<Rightarrow> flow \<times> process" where
  "while_true cv 0 k s = (Looping, s)"
| "while_true cv (Suc n) k s =
     (let frame = read_frame cv k in
      if empty cv frame then (Break, s\<lparr>cerr := cerr s @ [''Error: Empty frame.'']\<rparr>)
      else
        (case goodPosture (detect cv frame) of
           Inl e \<Rightarrow> (Undefined e, s)
         | Inr good \<Rightarrow>
             while_true cv n (Suc k)
               (s\<lparr>cout := cout s @ [feedback good], slept_ms := slept_ms s + 500\<rparr>)))"

text \<open>
  \<open>main\<close>, observed for at most \<open>n\<close> iterations of its loop: either it has returned a
  value, or it is still running, or it has met undefined behaviour.
\<close>

datatype status = Returned int | Running | Crashed fault

definition main :: "'mat opencv \<Rightarrow> nat \<Rightarrow> status \<times> process" where
  "main cv n =
     (if \<not> isOpened cv then
        (Returned (- 1), start\<lparr>cerr := cerr start @ [''Error: Could not open webcam.'']\<rparr>)
      else
        (case while_true cv n 0 (start\<lparr>cout := cout start @ [banner]\<rparr>) of
           (Break, s) \<Rightarrow> (Returned 0, s\<lparr>released := True\<rparr>)
         | (Looping, s) \<Rightarrow> (Running, s)
         | (Undefined e, s) \<Rightarrow> (Crashed e, s)))"

subsection \<open>Notions used to state the properties\<close>

text \<open>
  A segment from \<open>(x1, y1)\<close> to \<open>(x2, y2)\<close>, in the component order of
  \<open>cv::HoughLinesP\<close>, and the same segment with its endpoints exchanged.
\<close>

definition segment :: "int \<Rightarrow> int \<Rightarrow> int \<Rightarrow> int \<Rightarrow> Vec4i" where
  "segment x1 y1 x2 y2 = \<lparr>val0 = x1, val1 = y1, val2 = x2, val3 = y2\<rparr>"


text \<open>
  The angle of a segment in degrees as geometry has it, an exact real. The program does
  not compute this number but \<open>float_angle\<close>, the nearest \<open>float\<close> to it; the two are
  related by \<open>float_angle_exact\<close> below. It serves to say where a segment lies.
\<close>

definition segment_angle :: "Vec4i \<Rightarrow> real" where
  "segment_angle l =
     atan2 (real_of_int (val3 l - val1 l)) (real_of_int (val2 l - val0 l)) * 180 / CV_PI"

text \<open>
  The flag as a truth value, and the line that iteration \<open>k\<close> writes to standard output
  when its frame is not empty.
\<close>

definition verdict :: "Vec4i list \<Rightarrow> bool" where
  "verdict lines = (goodPosture lines = Inr True)"

definition report :: "'mat opencv \<Rightarrow> nat \<Rightarrow> string" where
  "report cv k = feedback (verdict (detect cv (read_frame cv k)))"

text \<open>
  Cameras for trying the properties out. The frames of \<open>sample_camera\<close> are numbers:
  frame 0 shows no segment, frames 1 and 3 a level segment followed by a diagonal one,
  frame 2 the same two in the other order, and every later read is empty. The key \<open>q\<close>
  (code 113) is held down throughout. \<open>endless_camera\<close> never delivers an empty frame,
  and \<open>closed_camera\<close> does not open.
\<close>

definition sample_lines :: "nat \<Rightarrow> Vec4i list" where
  "sample_lines f =
     (if f = 0 then []
      else if f = 2 then [segment 0 0 100 100, segment 0 0 100 0]
      else [segment 0 0 100 0, segment 0 0 100 100])"

definition sample_camera :: "nat opencv" where
  "sample_camera =
     \<lparr>isOpened = True, read_frame = (\<lambda>k. k), empty = (\<lambda>f. 4 \<le> f),
      cvtColor = (\<lambda>f. f), Canny = (\<lambda>f. f), HoughLinesP = sample_lines,
      waitKey = (\<lambda>k. 113)\<rparr>"

definition endless_camera :: "nat opencv" where
  "endless_camera = sample_camera\<lparr>empty := (\<lambda>f. False)\<rparr>"

definition closed_camera :: "nat opencv" where
  "closed_camera = sample_camera\<lparr>isOpened := False\<rparr>"


section \<open>Facts about the data\<close>

lemma differences_in_int_range:
  assumes "pixel_positions l"
  shows "int_range (val3 l - val1 l) \<and> int_range (val2 l - val0 l)"
  using assms by (auto simp: pixel_positions_def int_range_def)

lemma int32_in_range: "int_range v \<Longrightarrow> int32 v = v"
  by (simp add: int32_def int_range_def)

lemma int32_range: "int_range (int32 v)"
  by (simp add: int32_def int_range_def)

section \<open>Facts about the library arithmetic\<close>

subsection \<open>Narrowing to \<open>float\<close>\<close>

text \<open>
  Rounding to the nearest integer, ties to the even one, is monotone, and it stays
  below an even integer exactly when its argument stays below the midpoint before it.
\<close>

lemma round_to_even_ge: "real_of_int N \<le> y \<Longrightarrow> N \<le> round_to_even y"
proof -
  assume "real_of_int N \<le> y"
  then have "N \<le> \<lfloor>y\<rfloor>"
    by (simp add: le_floor_iff)
  then show ?thesis
    by (simp add: round_to_even_def Let_def)
qed

lemma round_to_even_le: "y \<le> real_of_int N \<Longrightarrow> round_to_even y \<le> N"
proof -
  assume le: "y \<le> real_of_int N"
  show ?thesis
  proof (cases "y = real_of_int N")
    case True
    then show ?thesis by (simp add: round_to_even_def Let_def)
  next
    case False
    with le have "y < real_of_int N" by simp
    then have "\<lfloor>y\<rfloor> < N" by (simp add: floor_less_iff)
    then show ?thesis
      by (simp add: round_to_even_def Let_def)
  qed
qed

lemma round_to_even_upper_half:
  assumes "real_of_int N - 1 / 2 < y" and "y < real_of_int N"
  shows "round_to_even y = N"
proof -
  from assms(1) have "real_of_int (N - 1) \<le> y"
    by simp
  moreover from assms(2) have "y < real_of_int (N - 1) + 1"
    by simp
  ultimately have "\<lfloor>y\<rfloor> = N - 1"
    by (simp only: floor_eq_iff)
  then show ?thesis
    using assms(1) by (simp add: round_to_even_def Let_def)
qed

lemma round_to_even_less_even:
  assumes "even N"
  shows "round_to_even y < N \<longleftrightarrow> y < real_of_int N - 1 / 2"
proof
  assume less: "y < real_of_int N - 1 / 2"
  show "round_to_even y < N"
  proof (cases "\<lfloor>y\<rfloor> = N - 1")
    case True
    then have "y - real_of_int \<lfloor>y\<rfloor> < 1 / 2"
      using less by simp
    then show ?thesis
      using True by (simp add: round_to_even_def Let_def)
  next
    case False
    from less have "y < real_of_int N" by simp
    then have "\<lfloor>y\<rfloor> < N" by (simp add: floor_less_iff)
    with False have "\<lfloor>y\<rfloor> + 1 < N" by simp
    then show ?thesis
      by (simp add: round_to_even_def Let_def)
  qed
next
  assume less: "round_to_even y < N"
  show "y < real_of_int N - 1 / 2"
  proof (rule ccontr)
    assume "\<not> y < real_of_int N - 1 / 2"
    then have ge: "real_of_int N - 1 / 2 \<le> y" by simp
    show False
    proof (cases "real_of_int N \<le> y")
      case True
      then show False
        using round_to_even_ge [of N y] less by simp
    next
      case False
      then have "y < real_of_int N" by simp
      then have up: "\<lfloor>y\<rfloor> < N" by (simp add: floor_less_iff)
      from ge have "real_of_int (N - 1) \<le> y" by simp
      then have "N - 1 \<le> \<lfloor>y\<rfloor>" by (simp only: le_floor_iff)
      with up have fl: "\<lfloor>y\<rfloor> = N - 1" by simp
      then have odd: "odd \<lfloor>y\<rfloor>" using assms by simp
      have "1 / 2 \<le> y - real_of_int \<lfloor>y\<rfloor>"
        using ge fl by simp
      then have "round_to_even y = \<lfloor>y\<rfloor> + 1"
        using odd by (simp add: round_to_even_def Let_def)
      with fl less show False by simp
    qed
  qed
qed


text \<open>
  The floats next to 10 are \<open>10 - 2\<^sup>-\<^sup>2\<^sup>0\<close> and 10 itself, which is the even one. So
  the test of line 36 passes exactly for the reals below the midpoint of the two.
\<close>

lemma float_spacing_pos: "0 < float_spacing x"
  by (simp add: float_spacing_def)

lemma abs_to_float:
  assumes "x \<noteq> 0"
  shows "\<bar>to_float x\<bar> = real_of_int (round_to_even (\<bar>x\<bar> / float_spacing x)) * float_spacing x"
proof -
  have "0 \<le> \<bar>x\<bar> / float_spacing x"
    using float_spacing_pos [of x] by simp
  then have "0 \<le> round_to_even (\<bar>x\<bar> / float_spacing x)"
    using round_to_even_ge [of 0] by simp
  then show ?thesis
    using assms float_spacing_pos [of x] by (simp add: to_float_def abs_mult abs_sgn_eq)
qed

lemma powr_2_shift: "2 powr (real_of_int e - 23) * 2 ^ 23 = 2 powr real_of_int e"
proof -
  have "2 powr (real_of_int e - 23) * 2 powr 23 = 2 powr real_of_int e"
    by (simp only: powr_add [symmetric]) simp
  then show ?thesis by simp
qed

lemma float_small:
  assumes "x \<noteq> 0" and "\<bar>x\<bar> < 8"
  shows "\<bar>to_float x\<bar> \<le> 8"
proof -
  let ?a = "\<bar>x\<bar>" and ?e = "float_exponent x" and ?q = "float_spacing x"
  from assms have pos: "0 < ?a" by simp
  have "log 2 ?a < 3"
    using pos assms(2) by (simp add: log_less_iff)
  then have "\<lfloor>log 2 ?a\<rfloor> \<le> 2"
    by (simp add: floor_le_iff)
  then have e: "?e \<le> 2"
    by (simp add: float_exponent_def)
  have "log 2 ?a < real_of_int \<lfloor>log 2 ?a\<rfloor> + 1"
    by linarith
  also have "\<dots> \<le> real_of_int ?e + 1"
    by (simp add: float_exponent_def)
  finally have "?a < 2 powr (real_of_int ?e + 1)"
    using pos by (simp add: log_less_iff)
  also have "\<dots> = 2 powr real_of_int ?e * 2"
    by (simp add: powr_add)
  also have "\<dots> = ?q * 2 ^ 24"
    using powr_2_shift [of ?e] by (simp add: float_spacing_def)
  finally have "?a / ?q \<le> real_of_int (2 ^ 24)"
    using float_spacing_pos [of x] by (simp add: field_simps)
  then have "round_to_even (?a / ?q) \<le> 2 ^ 24"
    by (rule round_to_even_le)
  then have "real_of_int (round_to_even (?a / ?q)) \<le> real_of_int (2 ^ 24)"
    by (simp only: of_int_le_iff)
  then have "real_of_int (round_to_even (?a / ?q)) \<le> 2 ^ 24"
    by simp
  then have "real_of_int (round_to_even (?a / ?q)) * ?q \<le> 2 ^ 24 * ?q"
    using float_spacing_pos [of x] by (simp only: mult_le_cancel_right_pos)
  also have "2 ^ 24 * ?q = 2 powr real_of_int ?e * 2"
    using powr_2_shift [of ?e] by (simp add: float_spacing_def)
  also have "2 powr real_of_int ?e \<le> 2 powr 2"
    using e by (intro powr_mono) simp_all
  finally show ?thesis
    using assms(1) by (simp add: abs_to_float)
qed

lemma float_large:
  assumes "16 \<le> \<bar>x\<bar>"
  shows "16 \<le> \<bar>to_float x\<bar>"
proof -
  let ?a = "\<bar>x\<bar>" and ?e = "float_exponent x" and ?q = "float_spacing x"
  from assms have pos: "0 < ?a" and nz: "x \<noteq> 0" by auto
  have "4 \<le> log 2 ?a"
    using pos assms by (simp add: le_log_iff)
  then have four: "4 \<le> \<lfloor>log 2 ?a\<rfloor>"
    by (simp add: le_floor_iff)
  then have e: "?e = \<lfloor>log 2 ?a\<rfloor>"
    by (simp add: float_exponent_def)
  have "real_of_int ?e \<le> log 2 ?a"
    unfolding e by simp
  then have low: "2 powr real_of_int ?e \<le> ?a"
    using pos by (simp add: le_log_iff)
  have "?q * 2 ^ 23 \<le> ?a"
    using low powr_2_shift [of ?e] by (simp add: float_spacing_def)
  then have "real_of_int (2 ^ 23) \<le> ?a / ?q"
    using float_spacing_pos [of x] by (simp add: field_simps)
  then have "2 ^ 23 \<le> round_to_even (?a / ?q)"
    by (rule round_to_even_ge)
  then have "real_of_int (2 ^ 23) \<le> real_of_int (round_to_even (?a / ?q))"
    by (simp only: of_int_le_iff)
  then have "2 ^ 23 \<le> real_of_int (round_to_even (?a / ?q))"
    by simp
  then have "2 ^ 23 * ?q \<le> real_of_int (round_to_even (?a / ?q)) * ?q"
    using float_spacing_pos [of x] by (simp only: mult_le_cancel_right_pos)
  moreover have "2 ^ 23 * ?q = 2 powr real_of_int ?e"
    using powr_2_shift [of ?e] by (simp add: float_spacing_def)
  moreover have "2 powr 4 \<le> 2 powr real_of_int ?e"
    using four e by (intro powr_mono) simp_all
  ultimately show ?thesis
    using nz by (simp add: abs_to_float)
qed

lemma float_spacing_near_10:
  assumes "8 \<le> \<bar>x\<bar>" and "\<bar>x\<bar> < 16"
  shows "float_spacing x = 1 / 2 ^ 20"
proof -
  from assms have pos: "0 < \<bar>x\<bar>" by simp
  have "3 \<le> log 2 \<bar>x\<bar>"
    using pos assms(1) by (simp add: le_log_iff)
  moreover have "log 2 \<bar>x\<bar> < 4"
    using pos assms(2) by (simp add: log_less_iff)
  ultimately have "\<lfloor>log 2 \<bar>x\<bar>\<rfloor> = 3"
    by (simp add: floor_eq_iff)
  then have "float_spacing x = 2 powr (- 20)"
    by (simp add: float_spacing_def float_exponent_def)
  then show ?thesis
    by (simp add: powr_minus inverse_eq_divide)
qed

lemma to_float_10: "to_float 10 = 10"
proof -
  have spacing: "float_spacing 10 = 1 / 2 ^ 20"
    by (rule float_spacing_near_10) simp_all
  have "round_to_even (10 * 2 ^ 20) = 10485760"
    by (simp add: round_to_even_def Let_def)
  then show ?thesis
    by (simp add: to_float_def spacing)
qed

lemma float_less_10_iff: "\<bar>to_float x\<bar> < 10 \<longleftrightarrow> \<bar>x\<bar> < 10 - 1 / 2 ^ 21"
proof -
  consider "x = 0" | "x \<noteq> 0" "\<bar>x\<bar> < 8" | "8 \<le> \<bar>x\<bar>" "\<bar>x\<bar> < 16" | "16 \<le> \<bar>x\<bar>"
    by linarith
  then show ?thesis
  proof cases
    case 1
    then show ?thesis by (simp add: to_float_def)
  next
    case 2
    from float_small [OF this] 2 show ?thesis by simp
  next
    case 3
    then have nz: "x \<noteq> 0" by auto
    have even: "even (10485760 :: int)" by simp
    have eq: "\<bar>to_float x\<bar> = real_of_int (round_to_even (\<bar>x\<bar> * 2 ^ 20)) / 2 ^ 20"
      using abs_to_float [OF nz] float_spacing_near_10 [OF 3] by simp
    have "\<bar>to_float x\<bar> < 10 \<longleftrightarrow>
        real_of_int (round_to_even (\<bar>x\<bar> * 2 ^ 20)) < real_of_int 10485760"
      unfolding eq by (simp add: divide_less_eq)
    also have "\<dots> \<longleftrightarrow> round_to_even (\<bar>x\<bar> * 2 ^ 20) < 10485760"
      by (simp only: of_int_less_iff)
    also have "\<dots> \<longleftrightarrow> \<bar>x\<bar> * 2 ^ 20 < real_of_int 10485760 - 1 / 2"
      by (rule round_to_even_less_even [OF even])
    also have "\<dots> \<longleftrightarrow> \<bar>x\<bar> < 10 - 1 / 2 ^ 21"
      by (simp add: field_simps)
    finally show ?thesis .
  next
    case 4
    from float_large [OF this] 4 show ?thesis by simp
  qed
qed


subsection \<open>Bounds on \<open>arctan\<close> and on \<open>pi\<close>\<close>

text \<open>
  Two partial sums of the series of \<open>arctan\<close> enclose it on the non-negative reals; each
  bound holds because the difference has a non-negative derivative and vanishes at zero.
\<close>

lemma one_plus_square_neq_0: "1 + t\<^sup>2 \<noteq> (0::real)"
  by (metis add_pos_nonneg less_numeral_extra(1) less_irrefl zero_le_power2)

lemma arctan_lower2:
  fixes x :: real
  assumes "0 \<le> x"
  shows "x - x ^ 3 / 3 \<le> arctan x"
proof -
  let ?f = "\<lambda>t::real. arctan t - t + t ^ 3 / 3"
  have "?f 0 \<le> ?f x"
  proof (rule DERIV_nonneg_imp_nondecreasing [OF assms])
    fix t :: real
    have "(?f has_real_derivative (inverse (1 + t\<^sup>2) - 1 + t ^ 2)) (at t)"
      by (auto intro!: derivative_eq_intros)
    moreover have "inverse (1 + t\<^sup>2) - 1 + t ^ 2 = t ^ 4 / (1 + t\<^sup>2)"
      using one_plus_square_neq_0 [of t] by (simp add: field_simps)
    moreover have "0 \<le> t ^ 4 / (1 + t\<^sup>2)"
      by (intro divide_nonneg_nonneg) (simp_all add: add_nonneg_nonneg)
    ultimately show "\<exists>y. (?f has_real_derivative y) (at t) \<and> 0 \<le> y"
      by metis
  qed
  then show ?thesis by simp
qed

lemma arctan_upper3:
  fixes x :: real
  assumes "0 \<le> x"
  shows "arctan x \<le> x - x ^ 3 / 3 + x ^ 5 / 5"
proof -
  let ?f = "\<lambda>t::real. t - t ^ 3 / 3 + t ^ 5 / 5 - arctan t"
  have "?f 0 \<le> ?f x"
  proof (rule DERIV_nonneg_imp_nondecreasing [OF assms])
    fix t :: real
    have "(?f has_real_derivative (1 - t ^ 2 + t ^ 4 - inverse (1 + t\<^sup>2))) (at t)"
      by (auto intro!: derivative_eq_intros)
    moreover have "1 - t ^ 2 + t ^ 4 - inverse (1 + t\<^sup>2) = t ^ 6 / (1 + t\<^sup>2)"
      using one_plus_square_neq_0 [of t] by (simp add: field_simps)
    moreover have "0 \<le> t ^ 6 / (1 + t\<^sup>2)"
      by (intro divide_nonneg_nonneg) (simp_all add: add_nonneg_nonneg)
    ultimately show "\<exists>y. (?f has_real_derivative y) (at t) \<and> 0 \<le> y"
      by metis
  qed
  then show ?thesis by simp
qed

text \<open>Machin's formula turns the two bounds into an enclosure of \<open>pi\<close>.\<close>

lemma pi_enclosure: "3.14 < pi" "pi < 3.142"
proof -
  have eq: "pi = 16 * arctan (1 / 5) - 4 * arctan (1 / 239)"
    using machin by simp
  have a: "(1 / 5 :: real) - (1 / 5) ^ 3 / 3 \<le> arctan (1 / 5)"
    by (rule arctan_lower2) simp
  have b: "arctan (1 / 5 :: real) \<le> 1 / 5 - (1 / 5) ^ 3 / 3 + (1 / 5) ^ 5 / 5"
    by (rule arctan_upper3) simp
  have c: "(1 / 239 :: real) - (1 / 239) ^ 3 / 3 \<le> arctan (1 / 239)"
    by (rule arctan_lower2) simp
  have d: "arctan (1 / 239 :: real) \<le> 1 / 239 - (1 / 239) ^ 3 / 3 + (1 / 239) ^ 5 / 5"
    by (rule arctan_upper3) simp
  show "3.14 < pi" using a d unfolding eq by (simp add: power_divide)
  show "pi < 3.142" using b c unfolding eq by (simp add: power_divide)
qed

subsection \<open>Radians to degrees\<close>

lemma CV_PI_pos: "0 < CV_PI"
  by (simp add: CV_PI_def)

lemma degrees_less_iff: "a * 180 / CV_PI < d \<longleftrightarrow> a < d * pi / 180"
  by (simp add: CV_PI_def field_simps)

lemma less_degrees_iff: "d < a * 180 / CV_PI \<longleftrightarrow> d * pi / 180 < a"
  by (simp add: CV_PI_def field_simps)

lemma abs_degrees_less_iff: "\<bar>a * 180 / CV_PI\<bar> < d \<longleftrightarrow> \<bar>a\<bar> < d * pi / 180"
proof -
  have "\<bar>a * 180 / CV_PI\<bar> = \<bar>a\<bar> * 180 / CV_PI"
    using CV_PI_pos by (simp add: abs_mult)
  then show ?thesis
    by (simp add: degrees_less_iff)
qed

subsection \<open>\<open>atan2\<close> is the angle of a point\<close>

text \<open>
  The definition of \<open>atan2\<close> above is the polar angle: it lies in \<open>(-pi, pi]\<close>, and the
  point is recovered from it and its distance to the origin.
\<close>

lemma atan2_range: "- pi < atan2 y x \<and> atan2 y x \<le> pi"
proof -
  have "- (pi / 2) < arctan (y / x)" "arctan (y / x) < pi / 2"
    by (rule arctan_lbound, rule arctan_ubound)
  moreover have "x < 0 \<Longrightarrow> 0 \<le> y \<Longrightarrow> arctan (y / x) \<le> 0"
    by (simp add: divide_nonneg_neg)
  moreover have "x < 0 \<Longrightarrow> y < 0 \<Longrightarrow> 0 < arctan (y / x)"
    by (simp add: divide_neg_neg)
  ultimately show ?thesis
    using pi_gt_zero by (auto simp: atan2_def)
qed

lemma atan2_polar:
  "sqrt (x\<^sup>2 + y\<^sup>2) * cos (atan2 y x) = x \<and> sqrt (x\<^sup>2 + y\<^sup>2) * sin (atan2 y x) = y"
proof -
  have norm: "sqrt (x\<^sup>2 + y\<^sup>2) = \<bar>x\<bar> * sqrt (1 + (y / x)\<^sup>2)" if "x \<noteq> 0"
  proof -
    have "x\<^sup>2 + y\<^sup>2 = x\<^sup>2 * (1 + (y / x)\<^sup>2)"
      using that by (simp add: field_simps power2_eq_square)
    then show ?thesis
      by (simp add: real_sqrt_mult)
  qed
  have pos: "0 < sqrt (1 + t\<^sup>2)" for t :: real
    by (simp add: add_pos_nonneg)
  consider "0 < x" | "x < 0" "0 \<le> y" | "x < 0" "y < 0"
    | "x = 0" "0 < y" | "x = 0" "y < 0" | "x = 0" "y = 0"
    by linarith
  then show ?thesis
  proof cases
    case 1
    then show ?thesis
      using pos [of "y / x"] by (simp add: atan2_def norm cos_arctan sin_arctan)
  next
    case 2
    then show ?thesis
      using pos [of "y / x"] by (simp add: atan2_def norm cos_arctan sin_arctan)
  next
    case 3
    then show ?thesis
      using pos [of "y / x"]
      by (simp add: atan2_def norm cos_arctan sin_arctan cos_diff sin_diff)
  next
    case 4
    then show ?thesis by (simp add: atan2_def)
  next
    case 5
    then show ?thesis by (simp add: atan2_def)
  next
    case 6
    then show ?thesis by (simp add: atan2_def)
  qed
qed

text \<open>A point left of the vertical axis has an angle beyond a right angle.\<close>

lemma atan2_backward:
  assumes "x < 0"
  shows "pi / 2 < \<bar>atan2 y x\<bar>"
proof (cases "0 \<le> y")
  case True
  have "y / x \<le> 0"
    using assms True by (simp add: divide_nonneg_neg)
  then have "arctan (y / x) \<le> 0"
    by simp
  moreover have "- (pi / 2) < arctan (y / x)"
    by (rule arctan_lbound)
  moreover have "atan2 y x = arctan (y / x) + pi"
    using assms True by (simp add: atan2_def)
  ultimately show ?thesis
    by linarith
next
  case False
  have "0 < y / x"
    using assms False by (simp add: divide_neg_neg)
  then have "0 < arctan (y / x)"
    by simp
  moreover have "arctan (y / x) < pi / 2"
    by (rule arctan_ubound)
  moreover have "atan2 y x = arctan (y / x) - pi"
    using assms False by (simp add: atan2_def)
  ultimately show ?thesis
    by linarith
qed

text \<open>
  Which points pass the test of line 36: those to the right of the origin whose slope
  stays under the midpoint below ten degrees, and the origin itself.
\<close>

lemma good_angle_iff:
  "\<bar>to_float (atan2 y x * 180 / CV_PI)\<bar> < 10 \<longleftrightarrow>
     (0 < x \<and> \<bar>arctan (y / x)\<bar> < (10 - 1 / 2 ^ 21) * pi / 180) \<or> (x = 0 \<and> y = 0)"
proof -
  let ?d = "10 - 1 / 2 ^ 21 :: real"
  have small: "?d * pi / 180 < pi / 2"
    using pi_gt_zero by simp
  consider "0 < x" | "x < 0" | "x = 0" "y \<noteq> 0" | "x = 0" "y = 0"
    by linarith
  then show ?thesis
  proof cases
    case 1
    then have "atan2 y x = arctan (y / x)"
      by (simp add: atan2_def)
    with 1 show ?thesis
      unfolding float_less_10_iff abs_degrees_less_iff by simp
  next
    case 2
    from atan2_backward [OF this, of y] have "\<not> \<bar>atan2 y x\<bar> < ?d * pi / 180"
      using small by linarith
    with 2 show ?thesis
      unfolding float_less_10_iff abs_degrees_less_iff by simp
  next
    case 3
    then have "\<bar>atan2 y x\<bar> = pi / 2"
      by (auto simp: atan2_def)
    then have "\<not> \<bar>atan2 y x\<bar> < ?d * pi / 180"
      using small by linarith
    with 3 show ?thesis
      unfolding float_less_10_iff abs_degrees_less_iff by simp
  next
    case 4
    then show ?thesis by (simp add: atan2_def to_float_def)
  qed
qed

section \<open>Facts about the classifier and the loop\<close>

lemma goodPosture_Nil: "goodPosture [] = Inr False"
  by (simp add: goodPosture_def)

lemma goodPosture_Cons: "goodPosture (l # ls) = Inr (\<bar>float_angle l\<bar> < 10)"
  by (simp add: goodPosture_def vector_at_def)

lemma goodPosture_verdict: "goodPosture lines = Inr (verdict lines)"
  by (cases lines) (simp_all add: verdict_def goodPosture_Nil goodPosture_Cons)

lemma verdict_Nil: "\<not> verdict []"
  by (simp add: verdict_def goodPosture_Nil)

lemma verdict_Cons: "verdict (l # ls) \<longleftrightarrow> \<bar>float_angle l\<bar> < 10"
  by (simp add: verdict_def goodPosture_Cons)

text \<open>
  Where the two differences do not overflow, the program's angle is the \<open>float\<close> nearest
  to the exact one, and the flag is set exactly when the exact angle lies below the
  midpoint between 10 and the \<open>float\<close> before it.
\<close>

lemma float_angle_exact:
  assumes "int_range (val3 l - val1 l)" and "int_range (val2 l - val0 l)"
  shows "float_angle l = to_float (segment_angle l)"
  using assms by (simp add: float_angle_def segment_angle_def int32_in_range)

lemma goodPosture_exact:
  assumes "int_range (val3 l - val1 l)" and "int_range (val2 l - val0 l)"
  shows "goodPosture (l # ls) = Inr (\<bar>segment_angle l\<bar> < 10 - 1 / 2 ^ 21)"
  using float_angle_exact [OF assms] by (simp add: goodPosture_Cons float_less_10_iff)

lemma goodPosture_segment:
  assumes "int_range (y2 - y1)" and "int_range (x2 - x1)"
  shows "goodPosture (segment x1 y1 x2 y2 # ls) =
     Inr (\<bar>segment_angle (segment x1 y1 x2 y2)\<bar> < 10 - 1 / 2 ^ 21)"
  using assms by (intro goodPosture_exact) (simp_all add: segment_def)

text \<open>One iteration of the loop, by the frame it reads.\<close>

lemma while_true_step:
  "\<not> empty cv (read_frame cv k) \<Longrightarrow>
   while_true cv (Suc n) k s =
     while_true cv n (Suc k) (s\<lparr>cout := cout s @ [report cv k], slept_ms := slept_ms s + 500\<rparr>)"
  by (simp add: report_def goodPosture_verdict Let_def)

lemma while_true_break:
  "empty cv (read_frame cv k) \<Longrightarrow>
   while_true cv (Suc n) k s = (Break, s\<lparr>cerr := cerr s @ [''Error: Empty frame.'']\<rparr>)"
  by simp

text \<open>As long as the frames are not empty, the loop goes on and prints one line each.\<close>

lemma while_true_prefix:
  "\<forall>j<m. \<not> empty cv (read_frame cv (k + j)) \<Longrightarrow>
   while_true cv (m + n) k s =
     while_true cv n (k + m)
       (s\<lparr>cout := cout s @ map (report cv) [k..<k + m], slept_ms := slept_ms s + 500 * m\<rparr>)"
proof (induction m arbitrary: k s)
  case 0
  then show ?case by simp
next
  case (Suc m)
  from Suc.prems have first: "\<not> empty cv (read_frame cv k)"
    by (metis add.right_neutral zero_less_Suc)
  from Suc.prems have rest: "\<forall>j<m. \<not> empty cv (read_frame cv (Suc k + j))"
    by (metis Suc_less_eq add_Suc_right add_Suc)
  have upt: "[k..<k + Suc m] = k # [Suc k..<Suc k + m]"
    by (simp add: upt_conv_Cons)
  have "while_true cv (Suc m + n) k s =
        while_true cv (m + n) (Suc k)
          (s\<lparr>cout := cout s @ [report cv k], slept_ms := slept_ms s + 500\<rparr>)"
    using while_true_step [OF first] by (simp del: while_true.simps)
  also have "\<dots> = while_true cv n (Suc k + m)
          (s\<lparr>cout := cout s @ [report cv k] @ map (report cv) [Suc k..<Suc k + m],
             slept_ms := slept_ms s + 500 + 500 * m\<rparr>)"
    using Suc.IH [OF rest] by (simp del: while_true.simps)
  finally show ?case
    unfolding upt by (simp del: while_true.simps upt_Suc add: add.assoc)
qed

text \<open>The loop is left by \<open>break\<close> exactly when one of the frames it reads is empty.\<close>

lemma while_true_Break_iff:
  "fst (while_true cv n k s) = Break \<longleftrightarrow> (\<exists>j<n. empty cv (read_frame cv (k + j)))"
proof (induction n arbitrary: k s)
  case 0
  then show ?case by simp
next
  case (Suc n)
  show ?case
  proof (cases "empty cv (read_frame cv k)")
    case True
    then show ?thesis by (auto simp: while_true_break intro: exI [of _ 0])
  next
    case False
    have "(\<exists>j<Suc n. empty cv (read_frame cv (k + j))) \<longleftrightarrow>
          (\<exists>j<n. empty cv (read_frame cv (Suc k + j)))"
      using False by (auto simp: less_Suc_eq_0_disj)
    then show ?thesis
      using False Suc.IH by (simp add: while_true_step del: while_true.simps)
  qed
qed

lemma while_true_not_Undefined: "fst (while_true cv n k s) \<noteq> Undefined e"
proof (induction n arbitrary: k s)
  case 0
  then show ?case by simp
next
  case (Suc n)
  then show ?case
    by (cases "empty cv (read_frame cv k)")
      (simp_all add: while_true_step while_true_break del: while_true.simps)
qed

lemma while_true_Looping_iff:
  "fst (while_true cv n k s) = Looping \<longleftrightarrow> (\<forall>j<n. \<not> empty cv (read_frame cv (k + j)))"
  using while_true_Break_iff [of cv n k s] while_true_not_Undefined [of cv n k s]
  by (cases "fst (while_true cv n k s)") auto

text \<open>The feedback lines differ from the banner, so the loop never repeats the banner.\<close>

lemma feedback_neq_banner: "feedback good \<noteq> banner"
  by (simp add: feedback_def banner_def)

lemma while_true_count_banner:
  "count_list (cout (snd (while_true cv n k s))) banner = count_list (cout s) banner"
proof (induction n arbitrary: k s)
  case 0
  then show ?case by simp
next
  case (Suc n)
  have "report cv k \<noteq> banner"
    by (simp add: report_def feedback_neq_banner)
  then show ?case
    using Suc.IH
    by (cases "empty cv (read_frame cv k)")
      (simp_all add: while_true_step while_true_break del: while_true.simps)
qed

text \<open>The loop only appends to standard output.\<close>

lemma while_true_cout_append: "\<exists>ys. cout (snd (while_true cv n k s)) = cout s @ ys"
proof (induction n arbitrary: k s)
  case 0
  then show ?case by simp
next
  case (Suc n)
  show ?case
  proof (cases "empty cv (read_frame cv k)")
    case True
    then show ?thesis by (simp add: while_true_break del: while_true.simps)
  next
    case False
    from Suc.IH [of "Suc k" "s\<lparr>cout := cout s @ [report cv k], slept_ms := slept_ms s + 500\<rparr>"]
    show ?thesis
      using False by (auto simp: while_true_step simp del: while_true.simps)
  qed
qed


text \<open>The sample segments.\<close>

lemma angle_level: "segment_angle (segment 0 0 100 0) = 0"
  by (simp add: segment_angle_def segment_def atan2_def)

lemma angle_diagonal: "segment_angle (segment 0 0 100 100) = 45"
  by (simp add: segment_angle_def segment_def atan2_def arctan_one CV_PI_def)

lemma good_level: "goodPosture (segment 0 0 100 0 # ls) = Inr True"
  by (simp add: goodPosture_segment int_range_def angle_level)

lemma bad_diagonal: "goodPosture (segment 0 0 100 100 # ls) = Inr False"
  by (simp add: goodPosture_segment int_range_def angle_diagonal)

lemma verdict_sample_lines:
  "verdict (sample_lines f) \<longleftrightarrow> f \<noteq> 0 \<and> f \<noteq> 2"
  by (simp add: sample_lines_def verdict_def goodPosture_Nil good_level bad_diagonal)

text \<open>
  The angles of the segments named in the specification, enclosed to a hundredth of a
  degree.
\<close>

lemma angle_17:
  "9.64 < segment_angle (segment 0 0 100 17) \<and> segment_angle (segment 0 0 100 17) < 9.66"
proof -
  have eq: "segment_angle (segment 0 0 100 17) = arctan (17 / 100) * 180 / CV_PI"
    by (simp add: segment_angle_def segment_def atan2_def)
  have lo: "(17 / 100 :: real) - (17 / 100) ^ 3 / 3 \<le> arctan (17 / 100)"
    by (rule arctan_lower2) simp
  have hi: "arctan (17 / 100 :: real) \<le> 17 / 100 - (17 / 100) ^ 3 / 3 + (17 / 100) ^ 5 / 5"
    by (rule arctan_upper3) simp
  have "9.64 < arctan (17 / 100) * 180 / CV_PI"
    unfolding less_degrees_iff using lo pi_enclosure(2) by (simp add: power_divide)
  moreover have "arctan (17 / 100) * 180 / CV_PI < 9.66"
    unfolding degrees_less_iff using hi pi_enclosure(1) by (simp add: power_divide)
  ultimately show ?thesis
    unfolding eq by simp
qed

lemma angle_18:
  "10.2 < segment_angle (segment 0 0 100 18) \<and> segment_angle (segment 0 0 100 18) < 10.21"
proof -
  have eq: "segment_angle (segment 0 0 100 18) = arctan (18 / 100) * 180 / CV_PI"
    by (simp add: segment_angle_def segment_def atan2_def)
  have lo: "(18 / 100 :: real) - (18 / 100) ^ 3 / 3 \<le> arctan (18 / 100)"
    by (rule arctan_lower2) simp
  have hi: "arctan (18 / 100 :: real) \<le> 18 / 100 - (18 / 100) ^ 3 / 3 + (18 / 100) ^ 5 / 5"
    by (rule arctan_upper3) simp
  have "10.2 < arctan (18 / 100) * 180 / CV_PI"
    unfolding less_degrees_iff using lo pi_enclosure(2) by (simp add: power_divide)
  moreover have "arctan (18 / 100) * 180 / CV_PI < 10.21"
    unfolding degrees_less_iff using hi pi_enclosure(1) by (simp add: power_divide)
  ultimately show ?thesis
    unfolding eq by simp
qed

lemma angle_backward:
  "179.42 < segment_angle (segment 100 0 0 1) \<and> segment_angle (segment 100 0 0 1) < 179.43"
proof -
  have eq: "segment_angle (segment 100 0 0 1) = (pi - arctan (1 / 100)) * 180 / CV_PI"
    by (simp add: segment_angle_def segment_def atan2_def arctan_minus)
  have lo: "(1 / 100 :: real) - (1 / 100) ^ 3 / 3 \<le> arctan (1 / 100)"
    by (rule arctan_lower2) simp
  have hi: "arctan (1 / 100 :: real) \<le> 1 / 100 - (1 / 100) ^ 3 / 3 + (1 / 100) ^ 5 / 5"
    by (rule arctan_upper3) simp
  have "179.42 < (pi - arctan (1 / 100)) * 180 / CV_PI"
    unfolding less_degrees_iff using hi pi_enclosure by (simp add: power_divide)
  moreover have "(pi - arctan (1 / 100)) * 180 / CV_PI < 179.43"
    unfolding degrees_less_iff using lo pi_enclosure by (simp add: power_divide)
  ultimately show ?thesis
    unfolding eq by simp
qed

lemma angle_forward:
  "- 0.58 < segment_angle (segment 0 1 100 0) \<and> segment_angle (segment 0 1 100 0) < - 0.57"
proof -
  have eq: "segment_angle (segment 0 1 100 0) = (- arctan (1 / 100)) * 180 / CV_PI"
    by (simp add: segment_angle_def segment_def atan2_def arctan_minus)
  have lo: "(1 / 100 :: real) - (1 / 100) ^ 3 / 3 \<le> arctan (1 / 100)"
    by (rule arctan_lower2) simp
  have hi: "arctan (1 / 100 :: real) \<le> 1 / 100 - (1 / 100) ^ 3 / 3 + (1 / 100) ^ 5 / 5"
    by (rule arctan_upper3) simp
  have "- 0.58 < (- arctan (1 / 100)) * 180 / CV_PI"
    unfolding less_degrees_iff using hi pi_enclosure by (simp add: power_divide)
  moreover have "(- arctan (1 / 100)) * 180 / CV_PI < - 0.57"
    unfolding degrees_less_iff using lo pi_enclosure by (simp add: power_divide)
  ultimately show ?thesis
    unfolding eq by simp
qed

text \<open>The verdicts on these segments.\<close>

lemma good_17: "goodPosture (segment 0 0 100 17 # ls) = Inr True"
  using angle_17 by (simp add: goodPosture_segment int_range_def abs_less_iff)

lemma bad_18: "goodPosture (segment 0 0 100 18 # ls) = Inr False"
  using angle_18 by (simp add: goodPosture_segment int_range_def abs_less_iff)



text \<open>
  A segment on which the narrowing decides: from \<open>(0,0)\<close> to \<open>(11059,1950)\<close>. Its exact
  angle lies between the midpoint \<open>10 - 2\<^sup>-\<^sup>2\<^sup>1\<close> and 10, so the \<open>float\<close> stored is 10
  and the test of line 36 fails. The enclosure compares the tangent of three times
  the angle with that of 30 degrees.
\<close>

lemma pi_div_18: "pi / 18 = arctan (1 / sqrt 3) / 3"
proof -
  have "arctan (1 / sqrt 3) = pi / 6"
    by (rule arctan_unique) (simp_all add: tan_30)
  then show ?thesis by simp
qed

lemma triple_arctan:
  assumes "\<bar>x\<bar> < 1" and "\<bar>2 * x / (1 - x\<^sup>2)\<bar> < 1"
  shows "3 * arctan x = arctan ((x + 2 * x / (1 - x\<^sup>2)) / (1 - x * (2 * x / (1 - x\<^sup>2))))"
proof -
  have "3 * arctan x = arctan x + 2 * arctan x"
    by simp
  also have "\<dots> = arctan x + arctan (2 * x / (1 - x\<^sup>2))"
    using arctan_double [OF assms(1)] by simp
  also have "\<dots> = arctan ((x + 2 * x / (1 - x\<^sup>2)) / (1 - x * (2 * x / (1 - x\<^sup>2))))"
    using assms by (intro arctan_add) simp_all
  finally show ?thesis .
qed

lemma boundary_below: "arctan (1950 / 11059) < pi / 18"
proof -
  have "3 * arctan (1950 / 11059 :: real) = arctan (708048788850 / 1226376535879)"
    using triple_arctan [of "1950 / 11059"] by (simp add: power2_eq_square)
  moreover have "(708048788850 / 1226376535879 :: real) < 1 / sqrt 3"
  proof -
    have "sqrt 3 < 1226376535879 / 708048788850"
      by (rule real_less_lsqrt) (simp_all add: power2_eq_square)
    then show ?thesis by (simp add: field_simps)
  qed
  ultimately have "3 * arctan (1950 / 11059 :: real) < arctan (1 / sqrt 3)"
    by (simp add: arctan_less_iff)
  then show ?thesis unfolding pi_div_18 by simp
qed

lemma boundary_near: "pi / 18 < arctan (243750011059 / 1382375000000)"
proof -
  have "3 * arctan (243750011059 / 1382375000000 :: real) =
      arctan (1382907852151416983020165666217921621 / 2395266649280431872487970607875000000)"
    using triple_arctan [of "243750011059 / 1382375000000"] by (simp add: power2_eq_square)
  moreover have "1 / sqrt 3 <
      (1382907852151416983020165666217921621 / 2395266649280431872487970607875000000 :: real)"
  proof -
    have "2395266649280431872487970607875000000 / 1382907852151416983020165666217921621 < sqrt 3"
      by (rule real_less_rsqrt) (simp_all add: power2_eq_square)
    then show ?thesis by (simp add: field_simps)
  qed
  ultimately have "arctan (1 / sqrt 3) < 3 * arctan (243750011059 / 1382375000000 :: real)"
    by (simp add: arctan_less_iff)
  then show ?thesis unfolding pi_div_18 by simp
qed

lemma boundary_above: "(10 - 1 / 2 ^ 21) * pi / 180 < arctan (1950 / 11059)"
proof -
  let ?u = "243750011059 / 1382375000000 :: real" and ?r = "1950 / 11059 :: real"
  let ?z = "122301481 / 15762997646565050 :: real"
  have "arctan ?u + arctan (- ?r) = arctan ((?u + - ?r) / (1 - ?u * - ?r))"
    by (rule arctan_add) simp_all
  then have diff: "arctan ?u - arctan ?r = arctan ?z"
    by (simp add: arctan_minus)
  have "arctan ?z \<le> ?z - ?z ^ 3 / 3 + ?z ^ 5 / 5"
    by (rule arctan_upper3) simp
  also have "\<dots> \<le> ?z"
    by (simp add: power_divide)
  finally have "arctan ?z \<le> ?z" .
  moreover have "?z < pi / (180 * 2 ^ 21)"
    using pi_enclosure(1) by (simp add: field_simps)
  ultimately have "arctan ?u - arctan ?r < pi / (180 * 2 ^ 21)"
    unfolding diff by linarith
  with boundary_near have "pi / 18 - pi / (180 * 2 ^ 21) < arctan ?r"
    by linarith
  then show ?thesis
    by (simp add: field_simps)
qed

lemma angle_boundary:
  "10 - 1 / 2 ^ 21 < segment_angle (segment 0 0 11059 1950) \<and>
   segment_angle (segment 0 0 11059 1950) < 10"
proof -
  have eq: "segment_angle (segment 0 0 11059 1950) = arctan (1950 / 11059) * 180 / CV_PI"
    by (simp add: segment_angle_def segment_def atan2_def)
  have "10 - 1 / 2 ^ 21 < arctan (1950 / 11059) * 180 / CV_PI"
    unfolding less_degrees_iff by (rule boundary_above)
  moreover have "arctan (1950 / 11059) * 180 / CV_PI < 10"
    unfolding degrees_less_iff using boundary_below by simp
  ultimately show ?thesis
    unfolding eq by simp
qed


lemma float_angle_boundary: "float_angle (segment 0 0 11059 1950) = 10"
proof -
  let ?a = "segment_angle (segment 0 0 11059 1950)"
  from angle_boundary have low: "10 - 1 / 2 ^ 21 < ?a" and high: "?a < 10"
    by simp_all
  from low have pos: "0 < ?a" and "8 \<le> \<bar>?a\<bar>"
    by simp_all
  moreover from high pos have "\<bar>?a\<bar> < 16"
    by simp
  ultimately have spacing: "float_spacing ?a = 1 / 2 ^ 20"
    by (intro float_spacing_near_10)
  have "real_of_int 10485760 - 1 / 2 < ?a * 2 ^ 20"
    using low by (simp add: field_simps)
  moreover have "?a * 2 ^ 20 < real_of_int 10485760"
    using high by simp
  ultimately have "round_to_even (?a * 2 ^ 20) = 10485760"
    by (rule round_to_even_upper_half)
  then have "to_float ?a = 10"
    using pos by (simp add: to_float_def spacing)
  moreover have "float_angle (segment 0 0 11059 1950) = to_float ?a"
    by (intro float_angle_exact) (simp_all add: segment_def int_range_def)
  ultimately show ?thesis
    by simp
qed

text \<open>
  The \<open>double\<close> operations of line 35, taken as exact here, are off the exact value by
  far less than a tenth of a degree. Any value that close to the exact angle of one of
  these segments lies on the same side of the threshold.
\<close>

lemma verdict_margin:
  assumes "\<bar>e\<bar> \<le> 1 / 10"
  shows "\<bar>segment_angle (segment 0 0 100 0) + e\<bar> < 10"
    and "\<bar>segment_angle (segment 0 0 100 17) + e\<bar> < 10"
    and "\<not> \<bar>segment_angle (segment 0 0 100 18) + e\<bar> < 10"
    and "\<not> \<bar>segment_angle (segment 0 0 100 100) + e\<bar> < 10"
    and "\<not> \<bar>segment_angle (segment 100 0 0 1) + e\<bar> < 10"
    and "\<bar>segment_angle (segment 0 1 100 0) + e\<bar> < 10"
proof -
  from assms have e: "- (1 / 10) \<le> e" "e \<le> 1 / 10"
    by (simp_all add: abs_le_iff)
  show "\<bar>segment_angle (segment 0 0 100 0) + e\<bar> < 10"
    using e by (simp add: angle_level abs_less_iff)
  show "\<bar>segment_angle (segment 0 0 100 17) + e\<bar> < 10"
    using e angle_17 by (simp add: abs_less_iff)
  show "\<not> \<bar>segment_angle (segment 0 0 100 18) + e\<bar> < 10"
    using e angle_18 by (simp add: abs_less_iff)
  show "\<not> \<bar>segment_angle (segment 0 0 100 100) + e\<bar> < 10"
    using e by (simp add: angle_diagonal abs_less_iff)
  show "\<not> \<bar>segment_angle (segment 100 0 0 1) + e\<bar> < 10"
    using e angle_backward by (simp add: abs_less_iff)
  show "\<bar>segment_angle (segment 0 1 100 0) + e\<bar> < 10"
    using e angle_forward by (simp add: abs_less_iff)
qed



subsection \<open>The whole run\<close>

text \<open>What \<open>main\<close> has done after at most \<open>n\<close> iterations, by what the camera delivers.\<close>

lemma main_closed:
  "\<not> isOpened cv \<Longrightarrow>
   main cv n = (Returned (- 1), start\<lparr>cerr := [''Error: Could not open webcam.'']\<rparr>)"
  by (simp add: main_def start_def)

lemma main_running:
  assumes "isOpened cv" and "\<forall>j<n. \<not> empty cv (read_frame cv j)"
  shows "main cv n =
     (Running, \<lparr>cout = banner # map (report cv) [0..<n], cerr = [],
                slept_ms = 500 * n, released = False\<rparr>)"
proof -
  from assms(2) have "\<forall>j<n. \<not> empty cv (read_frame cv (0 + j))"
    by simp
  from while_true_prefix [OF this, of 0 "start\<lparr>cout := cout start @ [banner]\<rparr>"]
  have "while_true cv n 0 (start\<lparr>cout := cout start @ [banner]\<rparr>) =
      (Looping, start\<lparr>cout := [banner] @ map (report cv) [0..<n], slept_ms := 500 * n\<rparr>)"
    by (simp add: start_def)
  then show ?thesis
    using assms(1) by (simp add: main_def start_def)
qed

lemma main_break:
  assumes "isOpened cv" and "\<forall>j<m. \<not> empty cv (read_frame cv j)"
    and "empty cv (read_frame cv m)" and "m < n"
  shows "main cv n =
     (Returned 0, \<lparr>cout = banner # map (report cv) [0..<m], cerr = [''Error: Empty frame.''],
                   slept_ms = 500 * m, released = True\<rparr>)"
proof -
  let ?s = "start\<lparr>cout := cout start @ [banner]\<rparr>"
  let ?t = "?s\<lparr>cout := cout ?s @ map (report cv) [0..<0 + m], slept_ms := slept_ms ?s + 500 * m\<rparr>"
  from assms(4) obtain r where "n = Suc (m + r)"
    by (auto dest: less_imp_Suc_add)
  then have n: "n = m + Suc r"
    by simp
  from assms(2) have "\<forall>j<m. \<not> empty cv (read_frame cv (0 + j))"
    by simp
  then have "while_true cv (m + Suc r) 0 ?s = while_true cv (Suc r) (0 + m) ?t"
    by (rule while_true_prefix)
  also have "\<dots> = (Break, ?t\<lparr>cerr := cerr ?t @ [''Error: Empty frame.'']\<rparr>)"
    by (rule while_true_break) (simp add: assms(3))
  finally have "main cv (m + Suc r) =
      (Returned 0, ?t\<lparr>cerr := cerr ?t @ [''Error: Empty frame.''], released := True\<rparr>)"
    using assms(1) by (simp add: main_def del: while_true.simps)
  then show ?thesis
    unfolding n by (simp add: start_def)
qed

lemma main_status:
  assumes "isOpened cv"
  shows "fst (main cv n) = (if \<exists>j<n. empty cv (read_frame cv j) then Returned 0 else Running)"
proof -
  let ?s = "start\<lparr>cout := cout start @ [banner]\<rparr>"
  obtain f s' where run: "while_true cv n 0 ?s = (f, s')"
    by (cases "while_true cv n 0 ?s")
  have "f = Break \<longleftrightarrow> (\<exists>j<n. empty cv (read_frame cv j))"
    using while_true_Break_iff [of cv n 0 ?s] run by simp
  moreover have "f \<noteq> Undefined e" for e
    using while_true_not_Undefined [of cv n 0 ?s e] run by simp
  ultimately show ?thesis
    using assms by (cases f) (auto simp: main_def run)
qed

lemma main_cout:
  assumes "isOpened cv"
  shows "\<exists>ys. cout (snd (main cv n)) = banner # ys \<and> count_list ys banner = 0"
proof -
  let ?s = "start\<lparr>cout := cout start @ [banner]\<rparr>"
  obtain f s' where run: "while_true cv n 0 ?s = (f, s')"
    by (cases "while_true cv n 0 ?s")
  have out: "cout (snd (main cv n)) = cout s'"
    using assms by (cases f) (simp_all add: main_def run)
  from while_true_cout_append [of cv n 0 ?s] obtain ys where "cout s' = cout ?s @ ys"
    unfolding run by auto
  then have ys: "cout s' = [banner] @ ys"
    by (simp add: start_def)
  from while_true_count_banner [of cv n 0 ?s] have "count_list (cout s') banner = count_list (cout ?s) banner"
    unfolding run by simp
  then have "count_list (cout s') banner = 1"
    by (simp add: start_def)
  with ys have "count_list ys banner = 0"
    by simp
  with ys out show ?thesis
    by simp
qed

text \<open>The keyboard is never read.\<close>

lemma while_true_waitKey:
  "while_true (cv\<lparr>waitKey := keys\<rparr>) n k s = while_true cv n k s"
  by (induction n arbitrary: k s) (simp_all add: detect_def Let_def split: sum.split)

lemma main_waitKey: "main (cv\<lparr>waitKey := keys\<rparr>) n = main cv n"
  by (simp add: main_def while_true_waitKey)

text \<open>The sample cameras.\<close>

lemma sample_camera_opened: "isOpened sample_camera"
  by (simp add: sample_camera_def)

lemma sample_camera_empty: "empty sample_camera (read_frame sample_camera k) \<longleftrightarrow> 4 \<le> k"
  by (simp add: sample_camera_def)

lemma sample_camera_detect: "detect sample_camera (read_frame sample_camera k) = sample_lines k"
  by (simp add: sample_camera_def detect_def)

lemma sample_camera_report: "report sample_camera k = feedback (k \<noteq> 0 \<and> k \<noteq> 2)"
  by (simp add: report_def sample_camera_detect verdict_sample_lines)

lemma endless_camera_opened: "isOpened endless_camera"
  by (simp add: endless_camera_def sample_camera_def)

lemma endless_camera_empty: "\<not> empty endless_camera (read_frame endless_camera k)"
  by (simp add: endless_camera_def)

lemma endless_camera_detect: "detect endless_camera (read_frame endless_camera k) = sample_lines k"
  by (simp add: endless_camera_def sample_camera_def detect_def)

lemma closed_camera_closed: "\<not> isOpened closed_camera"
  by (simp add: closed_camera_def)

section \<open>The claims\<close>



text \<open>
  C2. For the empty line list the classifier returns "needs correction": the flag keeps
  its initial value \<open>false\<close>, so an iteration whose frame shows no segment writes
  \<open>Straighten up!\<close> to standard output.
\<close>

theorem no_segment_needs_correction:
  "goodPosture [] = Inr False \<and>
   feedback (verdict []) = ''Straighten up!'' \<and>
   (\<not> empty cv (read_frame cv k) \<and> detect cv (read_frame cv k) = [] \<longrightarrow>
      while_true cv (Suc n) k s =
        while_true cv n (Suc k)
          (s\<lparr>cout := cout s @ [''Straighten up!''], slept_ms := slept_ms s + 500\<rparr>))"
  by (simp add: goodPosture_Nil verdict_Nil feedback_def Let_def)

theorem no_segment_needs_correction_witness:
  "\<not> empty sample_camera (read_frame sample_camera 0) \<and>
   detect sample_camera (read_frame sample_camera 0) = [] \<and>
   while_true sample_camera (Suc 0) 0 start =
     (Looping, start\<lparr>cout := [''Straighten up!''], slept_ms := 500\<rparr>)"
proof -
  have frame: "\<not> empty sample_camera (read_frame sample_camera 0) \<and>
      detect sample_camera (read_frame sample_camera 0) = []"
    by (simp add: sample_camera_def sample_lines_def detect_def)
  with no_segment_needs_correction [of sample_camera 0 0 start]
  have "while_true sample_camera (Suc 0) 0 start =
      while_true sample_camera 0 (Suc 0)
        (start\<lparr>cout := cout start @ [''Straighten up!''], slept_ms := slept_ms start + 500\<rparr>)"
    by blast
  with frame show ?thesis
    by (simp add: start_def)
qed

text \<open>
  C3. A single segment from \<open>(0,0)\<close> to \<open>(100,0)\<close>, at 0 degrees, and one to \<open>(100,17)\<close>,
  at about 9.65 degrees, are good posture; one to \<open>(100,100)\<close>, at 45 degrees, and one to
  \<open>(100,18)\<close>, at about 10.2 degrees, need correction. The threshold of 10 degrees lies
  between the last two.
\<close>

theorem boundary_segments:
  "goodPosture [segment 0 0 100 0] = Inr True \<and>
   segment_angle (segment 0 0 100 0) = 0 \<and>
   goodPosture [segment 0 0 100 17] = Inr True \<and>
   9.64 < segment_angle (segment 0 0 100 17) \<and> segment_angle (segment 0 0 100 17) < 9.66 \<and>
   goodPosture [segment 0 0 100 100] = Inr False \<and>
   segment_angle (segment 0 0 100 100) = 45 \<and>
   goodPosture [segment 0 0 100 18] = Inr False \<and>
   10.2 < segment_angle (segment 0 0 100 18) \<and> segment_angle (segment 0 0 100 18) < 10.21"
  using angle_17 angle_18
  by (simp add: good_level good_17 bad_diagonal bad_18 angle_level angle_diagonal)

text \<open>
  C4. For a line list with at least one segment the result depends on the first segment
  only: whatever segments follow it, and whatever is appended to the list, the classifier
  returns what it returns for the first segment alone.
\<close>

theorem later_segments_ignored:
  "goodPosture (l # rest) = goodPosture [l] \<and>
   goodPosture ((l # rest) @ extra) = goodPosture (l # rest)"
  by (simp add: goodPosture_Cons)

theorem later_segments_ignored_witness:
  "goodPosture [segment 0 0 100 0, segment 0 0 100 100] = Inr True \<and>
   goodPosture ([segment 0 0 100 0] @ [segment 0 0 100 100, segment 0 0 100 18]) = Inr True \<and>
   goodPosture [segment 0 0 100 100] = Inr False"
proof -
  have "goodPosture [segment 0 0 100 0] = Inr True"
    by (rule good_level)
  moreover have "goodPosture [segment 0 0 100 100] = Inr False"
    by (rule bad_diagonal)
  ultimately show ?thesis
    using later_segments_ignored [of "segment 0 0 100 0" "[segment 0 0 100 100]" "[]"]
      later_segments_ignored
        [of "segment 0 0 100 0" "[]" "[segment 0 0 100 100, segment 0 0 100 18]"]
    by simp
qed

text \<open>
  C5. The classification is a function of the line list alone. Take any two iterations,
  of the same run or of different runs, on any cameras and in any states of the process:
  if their frames yield the same line list, the classifier returns the same flag in both
  and both write the same line. The iteration changes nothing else of the process but
  the time slept, so the classification has no side effect and keeps no state.
\<close>

theorem feedback_depends_on_lines_only:
  assumes "\<not> empty cv (read_frame cv k)"
    and "\<not> empty cv' (read_frame cv' k')"
    and "detect cv (read_frame cv k) = detect cv' (read_frame cv' k')"
  shows "\<exists>good.
      goodPosture (detect cv (read_frame cv k)) = Inr good \<and>
      goodPosture (detect cv' (read_frame cv' k')) = Inr good \<and>
      while_true cv (Suc 0) k s =
        (Looping, s\<lparr>cout := cout s @ [feedback good], slept_ms := slept_ms s + 500\<rparr>) \<and>
      while_true cv' (Suc 0) k' s' =
        (Looping, s'\<lparr>cout := cout s' @ [feedback good], slept_ms := slept_ms s' + 500\<rparr>)"
proof (intro exI conjI)
  show "goodPosture (detect cv (read_frame cv k)) = Inr (verdict (detect cv (read_frame cv k)))"
    by (rule goodPosture_verdict)
  show "goodPosture (detect cv' (read_frame cv' k')) = Inr (verdict (detect cv (read_frame cv k)))"
    unfolding assms(3) by (rule goodPosture_verdict)
  show "while_true cv (Suc 0) k s =
      (Looping, s\<lparr>cout := cout s @ [feedback (verdict (detect cv (read_frame cv k)))],
         slept_ms := slept_ms s + 500\<rparr>)"
    using assms(1) by (simp add: while_true_step report_def del: while_true.simps(2))
  show "while_true cv' (Suc 0) k' s' =
      (Looping, s'\<lparr>cout := cout s' @ [feedback (verdict (detect cv (read_frame cv k)))],
         slept_ms := slept_ms s' + 500\<rparr>)"
    using assms(2) by (simp add: while_true_step report_def assms(3) del: while_true.simps(2))
qed

theorem feedback_depends_on_lines_only_witness:
  "\<not> empty sample_camera (read_frame sample_camera 1) \<and>
   \<not> empty endless_camera (read_frame endless_camera 7) \<and>
   detect sample_camera (read_frame sample_camera 1) =
     detect endless_camera (read_frame endless_camera 7) \<and>
   (\<exists>good.
      goodPosture (detect sample_camera (read_frame sample_camera 1)) = Inr good \<and>
      goodPosture (detect endless_camera (read_frame endless_camera 7)) = Inr good \<and>
      while_true sample_camera (Suc 0) 1 start =
        (Looping, start\<lparr>cout := cout start @ [feedback good],
           slept_ms := slept_ms start + 500\<rparr>) \<and>
      while_true endless_camera (Suc 0) 7 (start\<lparr>released := True\<rparr>) =
        (Looping, start\<lparr>released := True,
           cout := cout (start\<lparr>released := True\<rparr>) @ [feedback good],
           slept_ms := slept_ms (start\<lparr>released := True\<rparr>) + 500\<rparr>))"
proof -
  have a: "\<not> empty sample_camera (read_frame sample_camera 1)"
    by (simp add: sample_camera_empty)
  have b: "\<not> empty endless_camera (read_frame endless_camera 7)"
    by (rule endless_camera_empty)
  have c: "detect sample_camera (read_frame sample_camera 1) =
      detect endless_camera (read_frame endless_camera 7)"
    by (simp add: sample_camera_detect endless_camera_detect sample_lines_def)
  from feedback_depends_on_lines_only [OF a b c, of start "start\<lparr>released := True\<rparr>"] a b c
  show ?thesis
    by simp
qed

text \<open>
  C6. If the camera does not open, \<open>main\<close> writes the error line to the error stream
  and returns \<open>-1\<close>. If it opens and the read number \<open>m\<close> is the first to deliver an empty
  frame, then \<open>main\<close> leaves the loop there, having written the error line, releases the
  camera and returns \<open>0\<close>. These are the only ways in which \<open>main\<close> returns.
\<close>

theorem exit_codes:
  "(\<not> isOpened cv \<longrightarrow>
      main cv n = (Returned (- 1), start\<lparr>cerr := [''Error: Could not open webcam.'']\<rparr>)) \<and>
   (isOpened cv \<and> (\<forall>j<m. \<not> empty cv (read_frame cv j)) \<and> empty cv (read_frame cv m) \<and> m < n \<longrightarrow>
      main cv n =
        (Returned 0,
         \<lparr>cout = banner # map (report cv) [0..<m], cerr = [''Error: Empty frame.''],
          slept_ms = 500 * m, released = True\<rparr>)) \<and>
   (fst (main cv n) = Returned c \<longrightarrow>
      c = - 1 \<and> \<not> isOpened cv \<or>
      c = 0 \<and> isOpened cv \<and> (\<exists>j<n. empty cv (read_frame cv j)))"
proof (intro conjI impI)
  assume "\<not> isOpened cv"
  then show "main cv n = (Returned (- 1), start\<lparr>cerr := [''Error: Could not open webcam.'']\<rparr>)"
    by (rule main_closed)
next
  assume "isOpened cv \<and> (\<forall>j<m. \<not> empty cv (read_frame cv j)) \<and> empty cv (read_frame cv m) \<and> m < n"
  then show "main cv n =
      (Returned 0,
       \<lparr>cout = banner # map (report cv) [0..<m], cerr = [''Error: Empty frame.''],
        slept_ms = 500 * m, released = True\<rparr>)"
    by (intro main_break) simp_all
next
  assume ret: "fst (main cv n) = Returned c"
  show "c = - 1 \<and> \<not> isOpened cv \<or> c = 0 \<and> isOpened cv \<and> (\<exists>j<n. empty cv (read_frame cv j))"
  proof (cases "isOpened cv")
    case True
    with ret main_status [of cv n] show ?thesis
      by (auto split: if_splits)
  next
    case False
    with ret main_closed [of cv n] show ?thesis
      by simp
  qed
qed

theorem exit_codes_witness:
  "\<not> isOpened closed_camera \<and>
   main closed_camera 5 =
     (Returned (- 1),
      \<lparr>cout = [], cerr = [''Error: Could not open webcam.''], slept_ms = 0, released = False\<rparr>) \<and>
   isOpened sample_camera \<and>
   \<not> empty sample_camera (read_frame sample_camera 0) \<and>
   \<not> empty sample_camera (read_frame sample_camera 1) \<and>
   \<not> empty sample_camera (read_frame sample_camera 2) \<and>
   \<not> empty sample_camera (read_frame sample_camera 3) \<and>
   empty sample_camera (read_frame sample_camera 4) \<and>
   main sample_camera 5 =
     (Returned 0,
      \<lparr>cout = [banner, ''Straighten up!'', ''Good posture!'', ''Straighten up!'', ''Good posture!''],
       cerr = [''Error: Empty frame.''], slept_ms = 2000, released = True\<rparr>) \<and>
   (\<exists>j<5. empty sample_camera (read_frame sample_camera j))"
proof -
  have frames: "\<forall>j<4. \<not> empty sample_camera (read_frame sample_camera j)"
    by (simp add: sample_camera_empty)
  have last: "empty sample_camera (read_frame sample_camera 4)"
    by (simp add: sample_camera_empty)
  have lines: "map (report sample_camera) [0..<4] =
      [''Straighten up!'', ''Good posture!'', ''Straighten up!'', ''Good posture!'']"
    by (simp add: eval_nat_numeral sample_camera_report feedback_def)
  from exit_codes [of closed_camera 5 0 0] closed_camera_closed
  have closed: "main closed_camera 5 =
      (Returned (- 1), start\<lparr>cerr := [''Error: Could not open webcam.'']\<rparr>)"
    by blast
  from exit_codes [of sample_camera 5 4 0] sample_camera_opened frames last
  have run: "main sample_camera 5 =
      (Returned 0,
       \<lparr>cout = banner # map (report sample_camera) [0..<4], cerr = [''Error: Empty frame.''],
        slept_ms = 500 * 4, released = True\<rparr>)"
    by simp
  from exit_codes [of sample_camera 5 4 0] run sample_camera_opened
  have "\<exists>j<5. empty sample_camera (read_frame sample_camera j)"
    by simp
  with closed run last show ?thesis
    by (simp add: lines start_def closed_camera_closed sample_camera_opened sample_camera_empty)
qed

text \<open>
  C7. With the camera open, the loop is still running after \<open>n\<close> iterations exactly
  when none of the first \<open>n\<close> frames was empty, and when it is no longer running,
  \<open>main\<close> has returned \<open>0\<close>. So \<open>main\<close> returns at some point exactly when the camera at
  some point delivers an empty frame; on a camera that never does, it runs forever.
  The keyboard has no part in this: whatever keys are pressed, \<open>main\<close> does the same.
\<close>

theorem loop_ends_only_on_empty_frame:
  assumes "isOpened cv"
  shows "(fst (main cv n) = Running \<longleftrightarrow> (\<forall>j<n. \<not> empty cv (read_frame cv j))) \<and>
     (fst (main cv n) \<noteq> Running \<longleftrightarrow> fst (main cv n) = Returned 0) \<and>
     ((\<exists>n. fst (main cv n) = Returned 0) \<longleftrightarrow> (\<exists>j. empty cv (read_frame cv j))) \<and>
     main (cv\<lparr>waitKey := keys\<rparr>) n = main cv n"
proof (intro conjI)
  show "fst (main cv n) = Running \<longleftrightarrow> (\<forall>j<n. \<not> empty cv (read_frame cv j))"
    using main_status [OF assms, of n] by (simp split: if_splits)
  show "fst (main cv n) \<noteq> Running \<longleftrightarrow> fst (main cv n) = Returned 0"
    using main_status [OF assms, of n] by (simp split: if_splits)
  show "(\<exists>n. fst (main cv n) = Returned 0) \<longleftrightarrow> (\<exists>j. empty cv (read_frame cv j))"
  proof
    assume "\<exists>n. fst (main cv n) = Returned 0"
    then obtain n where "fst (main cv n) = Returned 0" ..
    with main_status [OF assms, of n] show "\<exists>j. empty cv (read_frame cv j)"
      by (auto split: if_splits)
  next
    assume "\<exists>j. empty cv (read_frame cv j)"
    then obtain j where "empty cv (read_frame cv j)" ..
    then have "\<exists>i<Suc j. empty cv (read_frame cv i)"
      by blast
    with main_status [OF assms, of "Suc j"] have "fst (main cv (Suc j)) = Returned 0"
      by simp
    then show "\<exists>n. fst (main cv n) = Returned 0" ..
  qed
  show "main (cv\<lparr>waitKey := keys\<rparr>) n = main cv n"
    by (rule main_waitKey)
qed

theorem loop_ends_only_on_empty_frame_witness:
  "isOpened endless_camera \<and>
   (\<forall>n. fst (main endless_camera n) = Running) \<and>
   main (endless_camera\<lparr>waitKey := (\<lambda>k. - 1)\<rparr>) 9 = main endless_camera 9 \<and>
   isOpened sample_camera \<and>
   fst (main sample_camera 4) = Running \<and>
   fst (main sample_camera 5) = Returned 0"
proof (intro conjI allI)
  show "isOpened endless_camera"
    by (rule endless_camera_opened)
  show "fst (main endless_camera n) = Running" for n
    using loop_ends_only_on_empty_frame [OF endless_camera_opened, of n]
    by (simp add: endless_camera_empty)
  show "main (endless_camera\<lparr>waitKey := (\<lambda>k. - 1)\<rparr>) 9 = main endless_camera 9"
    using loop_ends_only_on_empty_frame [OF endless_camera_opened, of 9 "\<lambda>k. - 1"]
    by blast
  show "isOpened sample_camera"
    by (rule sample_camera_opened)
  show "fst (main sample_camera 4) = Running"
    using loop_ends_only_on_empty_frame [OF sample_camera_opened, of 4]
    by (simp add: sample_camera_empty)
  have "\<not> (\<forall>j<5. \<not> empty sample_camera (read_frame sample_camera j))"
    by (auto simp: sample_camera_empty intro: exI [of _ 4])
  with loop_ends_only_on_empty_frame [OF sample_camera_opened, of 5]
  show "fst (main sample_camera 5) = Returned 0"
    by blast
qed



text \<open>
  C9. The read of \<open>lines[0]\<close> happens only under the guard that the list is not empty,
  where it yields the first element. So the out-of-range branch is never taken: the
  classifier never faults, no iteration of the loop does, and the process never meets
  undefined behaviour.
\<close>

theorem first_element_read_is_guarded:
  "(lines \<noteq> [] \<longrightarrow> vector_at lines 0 = Inr (hd lines)) \<and>
   goodPosture lines \<noteq> Inl e \<and>
   fst (while_true cv n k s) \<noteq> Undefined e \<and>
   fst (main cv n) \<noteq> Crashed e"
proof -
  have "lines \<noteq> [] \<longrightarrow> vector_at lines 0 = Inr (hd lines)"
    by (cases lines) (simp_all add: vector_at_def)
  moreover have "goodPosture lines \<noteq> Inl e"
    by (simp add: goodPosture_verdict)
  moreover have "fst (main cv n) \<noteq> Crashed e"
  proof -
    obtain f s' where run: "while_true cv n 0 (start\<lparr>cout := cout start @ [banner]\<rparr>) = (f, s')"
      by (cases "while_true cv n 0 (start\<lparr>cout := cout start @ [banner]\<rparr>)")
    with while_true_not_Undefined [of cv n 0 "start\<lparr>cout := cout start @ [banner]\<rparr>" e]
    have "f \<noteq> Undefined e"
      by simp
    then show ?thesis
      by (cases f) (simp_all add: main_def run)
  qed
  ultimately show ?thesis
    using while_true_not_Undefined by blast
qed

theorem first_element_read_is_guarded_witness:
  "[segment 0 0 100 0] \<noteq> [] \<and>
   vector_at [segment 0 0 100 0] 0 = Inr (segment 0 0 100 0) \<and>
   vector_at ([] :: Vec4i list) 0 = Inl OutOfRange \<and>
   goodPosture [] \<noteq> Inl OutOfRange \<and>
   fst (main sample_camera 4) \<noteq> Crashed OutOfRange"
  using first_element_read_is_guarded [of "[segment 0 0 100 0]" OutOfRange sample_camera 4 0 start]
    first_element_read_is_guarded [of "[]" OutOfRange sample_camera 4 0 start]
  by (simp add: vector_at_def)

text \<open>
  C10. The banner occurs on standard output exactly once if the camera opens, as the
  first line, and not at all if it does not: then nothing is written to standard
  output, the error stream holds the one error line, and \<open>main\<close> returns \<open>-1\<close>.
\<close>

theorem banner_once_iff_camera_opens:
  "count_list (cout (snd (main cv n))) banner = (if isOpened cv then 1 else 0) \<and>
   (isOpened cv \<longrightarrow> hd (cout (snd (main cv n))) = banner) \<and>
   (\<not> isOpened cv \<longrightarrow>
      main cv n =
        (Returned (- 1),
         \<lparr>cout = [], cerr = [''Error: Could not open webcam.''], slept_ms = 0,
          released = False\<rparr>))"
proof (cases "isOpened cv")
  case True
  from main_cout [OF this, of n] obtain ys
    where "cout (snd (main cv n)) = banner # ys" and "count_list ys banner = 0"
    by blast
  with True show ?thesis
    by simp
next
  case False
  from main_closed [OF this, of n] False show ?thesis
    by (simp add: start_def)
qed

theorem banner_once_iff_camera_opens_witness:
  "isOpened sample_camera \<and>
   count_list (cout (snd (main sample_camera 5))) banner = 1 \<and>
   hd (cout (snd (main sample_camera 5))) = banner \<and>
   \<not> isOpened closed_camera \<and>
   count_list (cout (snd (main closed_camera 5))) banner = 0 \<and>
   main closed_camera 5 =
     (Returned (- 1),
      \<lparr>cout = [], cerr = [''Error: Could not open webcam.''], slept_ms = 0, released = False\<rparr>)"
  using banner_once_iff_camera_opens [of sample_camera 5]
    banner_once_iff_camera_opens [of closed_camera 5]
    sample_camera_opened closed_camera_closed
  by simp

end
